theory Spec2Isabelle
  imports Main "HOL-Library.Word"
begin

unbundle bit_operations_syntax

section \<open>Machine integers, panics and byte slices\<close>

text \<open>
  The decoder of \<^verbatim>\<open>rlp/parse.go\<close> works on Go values: \<^verbatim>\<open>byte\<close> is an unsigned
  8-bit word, \<^verbatim>\<open>uint64\<close> an unsigned 64-bit word, and \<^verbatim>\<open>int\<close> the signed 64-bit
  integer of the 64-bit platforms the library is built for. A Go \<^verbatim>\<open>int\<close> is modelled
  as an \<open>int\<close> in the range \<open>-2^63 \<dots> 2^63 - 1\<close>, and every operation that can leave
  that range is followed by \<open>int64\<close>, the two's complement wrap-around.
\<close>

type_synonym byte = "8 word"

definition int64 :: "int \<Rightarrow> int" where
  "int64 x = (x + 2 ^ 63) mod 2 ^ 64 - 2 ^ 63"

text \<open>
  A Go function either returns its tuple of results or panics (index out of range,
  slice bounds out of range). An \<^verbatim>\<open>error\<close> result is part of the returned tuple.
\<close>

datatype 'a outcome = Return 'a | Panic

text \<open>
  A byte slice as a function sees it: \<open>elems\<close> are the elements \<open>0 \<dots> len - 1\<close>,
  \<open>spare\<close> the elements of the backing array between the length and the capacity.
  An index expression is checked against the length, a slice expression against
  the capacity.
\<close>

record bslice =
  elems :: "byte list"
  spare :: "byte list"

definition slice_len :: "bslice \<Rightarrow> int" where
  "slice_len s = int (length (elems s))"

definition slice_cap :: "bslice \<Rightarrow> int" where
  "slice_cap s = int (length (elems s) + length (spare s))"

definition index :: "bslice \<Rightarrow> int \<Rightarrow> byte outcome" where
  "index s i = (if 0 \<le> i \<and> i < slice_len s then Return (elems s ! nat i) else Panic)"

text \<open>\<^verbatim>\<open>s[lo:hi]\<close>, as the list of the elements of the new slice.\<close>

definition slice_expr :: "bslice \<Rightarrow> int \<Rightarrow> int \<Rightarrow> byte list outcome" where
  "slice_expr s lo hi =
     (if 0 \<le> lo \<and> lo \<le> hi \<and> hi \<le> slice_cap s
      then Return (take (nat (hi - lo)) (drop (nat lo) (elems s @ spare s)))
      else Panic)"

section \<open>Errors\<close>

text \<open>
  The errors are built with \<^verbatim>\<open>fmt.Errorf\<close>; each constructor stands for one message:
  \<^item> \<open>NonCanonicalInteger bs\<close>: "integer encoding for RLP must not have leading zeros: %x",
    with the bytes printed;
  \<^item> \<open>WrongElementKind\<close>: "... must be a string, not list";
  \<^item> \<open>UnexpectedEndOfPayload\<close>: "unexpected end of payload";
  \<^item> \<open>IntegerTooLarge n\<close>: "... must not be more than 8 bytes long, got %d";
  \<^item> \<open>InvalidHashLength\<close>: "hash must be 32 bytes long";
  \<^item> \<open>ParseHashError e\<close>: the message of \<open>e\<close> after \<^verbatim>\<open>ParseHashErrorPrefix\<close>, as every
    error of \<^verbatim>\<open>ParseHash\<close> is (the error of the prefix is wrapped after "hash len:").
\<close>

datatype error =
    NonCanonicalInteger "byte list"
  | WrongElementKind
  | UnexpectedEndOfPayload
  | IntegerTooLarge int
  | InvalidHashLength
  | ParseHashError error

section \<open>BeInt\<close>

text \<open>The loop \<^verbatim>\<open>for _, b := range ... { r = (r << 8) | int(b) }\<close> on a Go \<^verbatim>\<open>int\<close>.\<close>

fun be_loop :: "int \<Rightarrow> byte list \<Rightarrow> int" where
  "be_loop r [] = r"
| "be_loop r (b # bs) = be_loop (int64 (push_bit 8 r) OR uint b) bs"

definition BeInt :: "bslice \<Rightarrow> int \<Rightarrow> int \<Rightarrow> (int \<times> error option) outcome" where
  "BeInt payload pos len =
     (case (if len > 0 then index payload pos else Return 1) of
        Panic \<Rightarrow> Panic
      | Return b \<Rightarrow>
          (case slice_expr payload pos (int64 (pos + len)) of
             Panic \<Rightarrow> Panic
           | Return bs \<Rightarrow>
               if len > 0 \<and> b = 0 then Return (0, Some (NonCanonicalInteger bs))
               else Return (be_loop 0 bs, None)))"

section \<open>ParsePrefix\<close>

text \<open>The results are \<^verbatim>\<open>(prefixLen, dataLen, isList, err)\<close>.\<close>

definition ParsePrefix :: "bslice \<Rightarrow> int \<Rightarrow> (int \<times> int \<times> bool \<times> error option) outcome" where
  "ParsePrefix payload pos =
     (case index payload pos of
        Panic \<Rightarrow> Panic
      | Return first \<Rightarrow>
          if first < 128 then Return (pos, 1, False, None)
          else if first < 184 then Return (int64 (pos + 1), int64 (uint first - 128), False, None)
          else if first < 192 then
            (let beLen = int64 (uint first - 183);
                 prefixLen = int64 (int64 (pos + 1) + beLen)
             in case BeInt payload (int64 (pos + 1)) beLen of
                  Panic \<Rightarrow> Panic
                | Return (dataLen, err) \<Rightarrow> Return (prefixLen, dataLen, False, err))
          else if first < 248 then Return (int64 (pos + 1), int64 (uint first - 192), True, None)
          else
            (let beLen = int64 (uint first - 247);
                 prefixLen = int64 (int64 (pos + 1) + beLen)
             in case BeInt payload (int64 (pos + 1)) beLen of
                  Panic \<Rightarrow> Panic
                | Return (dataLen, err) \<Rightarrow> Return (prefixLen, dataLen, True, err)))"

section \<open>U64 and U256\<close>

text \<open>The loop of \<^verbatim>\<open>U64\<close> on a \<^verbatim>\<open>uint64\<close>.\<close>

fun u64_loop :: "64 word \<Rightarrow> byte list \<Rightarrow> 64 word" where
  "u64_loop r [] = r"
| "u64_loop r (b # bs) = u64_loop (push_bit 8 r OR ucast b) bs"

text \<open>The results are \<^verbatim>\<open>(new position, value, err)\<close>.\<close>

definition U64 :: "bslice \<Rightarrow> int \<Rightarrow> (int \<times> 64 word \<times> error option) outcome" where
  "U64 payload pos =
     (case ParsePrefix payload pos of
        Panic \<Rightarrow> Panic
      | Return (prefixLen, dataLen, isList, err) \<Rightarrow>
          if err \<noteq> None then Return (0, 0, err)
          else if isList then Return (0, 0, Some WrongElementKind)
          else if int64 (prefixLen + dataLen) \<ge> slice_len payload
            then Return (0, 0, Some UnexpectedEndOfPayload)
          else if dataLen > 8 then Return (0, 0, Some (IntegerTooLarge dataLen))
          else
            (case (if dataLen > 0 then index payload prefixLen else Return 1) of
               Panic \<Rightarrow> Panic
             | Return b \<Rightarrow>
                 (case slice_expr payload prefixLen (int64 (prefixLen + dataLen)) of
                    Panic \<Rightarrow> Panic
                  | Return bs \<Rightarrow>
                      if dataLen > 0 \<and> b = 0
                      then Return (0, 0, Some (NonCanonicalInteger bs))
                      else Return (int64 (prefixLen + dataLen), u64_loop 0 bs, None))))"

text \<open>
  \<^verbatim>\<open>x.SetBytes(buf)\<close> of the library \<^verbatim>\<open>holiman/uint256\<close> sets \<open>x\<close> to the big-endian
  value of \<open>buf\<close> (of its last 32 bytes when it is longer, which is what the shifts
  of a 256-bit word leave).
\<close>

definition SetBytes :: "byte list \<Rightarrow> 256 word" where
  "SetBytes buf = foldl (\<lambda>r b. push_bit 8 r OR ucast b) 0 buf"

text \<open>
  \<^verbatim>\<open>U256\<close> takes the value \<open>x\<close> that the pointer refers to and returns the value it
  refers to afterwards, with the results \<^verbatim>\<open>(new position, err)\<close>.
\<close>

definition U256 :: "bslice \<Rightarrow> int \<Rightarrow> 256 word \<Rightarrow> (256 word \<times> int \<times> error option) outcome" where
  "U256 payload pos x =
     (case ParsePrefix payload pos of
        Panic \<Rightarrow> Panic
      | Return (prefixLen, dataLen, list, err) \<Rightarrow>
          if err \<noteq> None then Return (x, 0, err)
          else if list then Return (x, 0, Some WrongElementKind)
          else if int64 (prefixLen + dataLen) > slice_len payload
            then Return (x, 0, Some UnexpectedEndOfPayload)
          else if dataLen > 32 then Return (x, 0, Some (IntegerTooLarge dataLen))
          else
            (case (if dataLen > 0 then index payload prefixLen else Return 1) of
               Panic \<Rightarrow> Panic
             | Return b \<Rightarrow>
                 (case slice_expr payload prefixLen (int64 (prefixLen + dataLen)) of
                    Panic \<Rightarrow> Panic
                  | Return bs \<Rightarrow>
                      if dataLen > 0 \<and> b = 0
                      then Return (x, 0, Some (NonCanonicalInteger bs))
                      else Return (SetBytes bs, int64 (prefixLen + dataLen), None))))"

section \<open>The heap of backing arrays and ParseHash\<close>

text \<open>
  \<^verbatim>\<open>ParseHash\<close> writes into the backing array of \<^verbatim>\<open>hashbuf\<close>, which the caller
  keeps and which may share storage with \<^verbatim>\<open>payload\<close>. The heap is the list of the
  backing arrays, an array being named by its index; \<^verbatim>\<open>make\<close> appends a new one.
  A slice value names its array (\<open>None\<close> for \<^verbatim>\<open>nil\<close>), the offset of its first
  element, its length and its capacity.
\<close>

type_synonym heap = "byte list list"

record slice =
  array :: "nat option"
  offset :: nat
  slen :: nat
  scap :: nat

definition nil :: slice where
  "nil = \<lparr>array = None, offset = 0, slen = 0, scap = 0\<rparr>"

definition wf_slice :: "heap \<Rightarrow> slice \<Rightarrow> bool" where
  "wf_slice h s =
     (slen s \<le> scap s \<and> int (scap s) < 2 ^ 63 \<and>
      (case array s of
         None \<Rightarrow> scap s = 0
       | Some a \<Rightarrow> a < length h \<and> offset s + scap s \<le> length (h ! a)))"

text \<open>What a function reading the slice \<open>s\<close> sees in the heap \<open>h\<close>.\<close>

definition view :: "heap \<Rightarrow> slice \<Rightarrow> bslice" where
  "view h s =
     (case array s of
        None \<Rightarrow> \<lparr>elems = [], spare = []\<rparr>
      | Some a \<Rightarrow>
          (let bs = take (scap s) (drop (offset s) (if a < length h then h ! a else []))
           in \<lparr>elems = take (slen s) bs, spare = drop (slen s) bs\<rparr>))"

definition ensureEnoughSize :: "heap \<Rightarrow> slice \<Rightarrow> int \<Rightarrow> (heap \<times> slice) outcome" where
  "ensureEnoughSize h in_slice sz =
     (if int (scap in_slice) < sz
      then Return (h @ [replicate (nat sz) 0],
                   \<lparr>array = Some (length h), offset = 0, slen = nat sz, scap = nat sz\<rparr>)
      else if 0 \<le> sz then Return (h, in_slice\<lparr>slen := nat sz\<rparr>)
      else Panic)"

text \<open>
  The built-in \<^verbatim>\<open>copy(dst, src)\<close> writes the first \<open>min (len dst) (len src)\<close> elements
  of \<open>src\<close>, read before any is written, over the first elements of \<open>dst\<close>.
\<close>

definition overwrite :: "'a list \<Rightarrow> nat \<Rightarrow> 'a list \<Rightarrow> 'a list" where
  "overwrite xs i ys = take i xs @ ys @ drop (i + length ys) xs"

definition copy :: "heap \<Rightarrow> slice \<Rightarrow> byte list \<Rightarrow> heap" where
  "copy h dst src =
     (case array dst of
        None \<Rightarrow> h
      | Some a \<Rightarrow> h[a := overwrite (h ! a) (offset dst) (take (slen dst) src)])"

text \<open>The results are the heap afterwards and \<^verbatim>\<open>(hashbuf, new position, err)\<close>.\<close>

definition ParseHash ::
  "heap \<Rightarrow> slice \<Rightarrow> int \<Rightarrow> slice \<Rightarrow> (heap \<times> slice \<times> int \<times> error option) outcome" where
  "ParseHash h payload pos hashbuf =
     (let payloadLen = slice_len (view h payload)
      in case ParsePrefix (view h payload) pos of
           Panic \<Rightarrow> Panic
         | Return (prefixLen, dataLen, list, err) \<Rightarrow>
             (case err of
                Some e \<Rightarrow> Return (h, nil, 0, Some (ParseHashError e))
              | None \<Rightarrow>
                  if list then Return (h, nil, 0, Some (ParseHashError WrongElementKind))
                  else if int64 (prefixLen + dataLen) > payloadLen
                    then Return (h, nil, 0, Some (ParseHashError UnexpectedEndOfPayload))
                  else if dataLen \<noteq> 32
                    then Return (h, nil, 0, Some (ParseHashError InvalidHashLength))
                  else
                    (case ensureEnoughSize h hashbuf 32 of
                       Panic \<Rightarrow> Panic
                     | Return (h1, hashbuf1) \<Rightarrow>
                         (case slice_expr (view h1 payload) prefixLen
                                 (int64 (prefixLen + dataLen)) of
                            Panic \<Rightarrow> Panic
                          | Return src \<Rightarrow>
                              Return (copy h1 hashbuf1 src, hashbuf1,
                                      int64 (prefixLen + dataLen), None)))))"

section \<open>Notions of the specification\<close>

text \<open>
  The slice of a composite literal \<^verbatim>\<open>[]byte{...}\<close>: its capacity is its length.
\<close>

definition literal :: "byte list \<Rightarrow> bslice" where
  "literal bs = \<lparr>elems = bs, spare = []\<rparr>"

text \<open>
  The specification's big-endian unsigned integer of a byte sequence, accumulated
  as \<open>result = result * 256 + byte\<close> on unbounded numbers.
\<close>

definition be_value :: "byte list \<Rightarrow> nat" where
  "be_value bs = foldl (\<lambda>r b. r * 256 + unat b) 0 bs"

text \<open>The \<open>n\<close> bytes of the buffer from position \<open>pos\<close> on.\<close>

definition window :: "bslice \<Rightarrow> int \<Rightarrow> int \<Rightarrow> byte list" where
  "window p pos n = take (nat n) (drop (nat pos) (elems p))"

text \<open>
  The length field of a long string or a long list, the \<open>n\<close> bytes after the byte at
  \<open>pos\<close>, is readable: it lies in the buffer, does not start with a zero byte, and
  its value is a non-negative Go \<^verbatim>\<open>int\<close>.
\<close>

definition length_field_ok :: "bslice \<Rightarrow> int \<Rightarrow> int \<Rightarrow> bool" where
  "length_field_ok p pos n =
     (pos + 1 + n \<le> slice_len p \<and> elems p ! nat (pos + 1) \<noteq> 0 \<and>
      be_value (window p (pos + 1) n) < 2 ^ 63)"

section \<open>Wrap-around and the big-endian loop\<close>

lemma int64_id: "- (2 ^ 63) \<le> x \<Longrightarrow> x < 2 ^ 63 \<Longrightarrow> int64 x = x"
  unfolding int64_def by (simp add: mod_pos_pos_trivial)

lemma uint_byte_less: "uint (b :: byte) < 256"
  using uint_bounded [of b] by simp

lemma or_byte: "push_bit 8 k OR uint (b :: byte) = k * 256 + uint b"
proof -
  have t: "take_bit 8 (uint b) = uint b"
    by (rule take_bit_int_eq_self) (use uint_byte_less [of b] in simp_all)
  have "push_bit 8 k OR uint b = concat_bit 8 (uint b) k"
    by (simp add: concat_bit_def t or.commute)
  also have "\<dots> = uint b + push_bit 8 k"
    by (simp add: concat_bit_eq t)
  finally show ?thesis
    by (simp add: push_bit_eq_mult)
qed

lemma foldl_be_ge: "r \<le> foldl (\<lambda>r b. r * 256 + unat (b :: byte)) r bs"
proof (induction bs arbitrary: r)
  case Nil
  show ?case by simp
next
  case (Cons b bs)
  have "r \<le> r * 256 + unat b" by simp
  also have "\<dots> \<le> foldl (\<lambda>r b. r * 256 + unat b) (r * 256 + unat b) bs"
    by (rule Cons.IH)
  finally show ?case by simp
qed

lemma be_loop_exact:
  "foldl (\<lambda>r b. r * 256 + unat b) r bs < 2 ^ 63 \<Longrightarrow>
   be_loop (int r) bs = int (foldl (\<lambda>r b. r * 256 + unat b) r bs)"
proof (induction bs arbitrary: r)
  case Nil
  show ?case by simp
next
  case (Cons b bs)
  let ?r' = "r * 256 + unat b"
  have "?r' \<le> foldl (\<lambda>r b. r * 256 + unat b) ?r' bs"
    by (rule foldl_be_ge)
  with Cons.prems have small: "?r' < 2 ^ 63" by simp
  then have "int r * 256 < 2 ^ 63"
    by (metis (mono_tags, opaque_lifting) add_lessD1 of_nat_less_iff of_nat_mult of_nat_numeral of_nat_power)
  then have "int64 (push_bit 8 (int r)) = push_bit 8 (int r)"
    by (intro int64_id) (simp_all add: push_bit_eq_mult)
  then have "int64 (push_bit 8 (int r)) OR uint b = int ?r'"
    by (simp add: or_byte)
  moreover have "be_loop (int ?r') bs = int (foldl (\<lambda>r b. r * 256 + unat b) ?r' bs)"
    using Cons.prems by (intro Cons.IH) simp
  ultimately show ?case by simp
qed

lemma be_loop_be_value: "be_value bs < 2 ^ 63 \<Longrightarrow> be_loop 0 bs = int (be_value bs)"
  using be_loop_exact [of 0 bs] by (simp add: be_value_def)

section \<open>Reads inside the buffer\<close>

lemma slice_expr_in_len:
  assumes "slice_cap p < 2 ^ 63" "0 \<le> pos" "0 \<le> n" "pos + n \<le> slice_len p"
  shows "slice_expr p pos (int64 (pos + n)) = Return (window p pos n)"
proof -
  have le: "slice_len p \<le> slice_cap p"
    by (simp add: slice_len_def slice_cap_def)
  have "int64 (pos + n) = pos + n"
    using assms le by (intro int64_id) linarith+
  moreover have "take (nat n) (drop (nat pos) (elems p @ spare p)) = window p pos n"
    using assms by (simp add: window_def slice_len_def)
  ultimately show ?thesis
    using assms le by (simp add: slice_expr_def)
qed

lemma BeInt_in_bounds:
  assumes "slice_cap p < 2 ^ 63" "0 \<le> pos" "0 \<le> n" "pos + n \<le> slice_len p"
  shows "BeInt p pos n =
           (if 0 < n \<and> elems p ! nat pos = 0
            then Return (0, Some (NonCanonicalInteger (window p pos n)))
            else Return (be_loop 0 (window p pos n), None))"
proof -
  have s: "slice_expr p pos (int64 (pos + n)) = Return (window p pos n)"
    using assms by (rule slice_expr_in_len)
  show ?thesis
    unfolding BeInt_def s using assms by (simp add: index_def)
qed

lemma index_in_len:
  "0 \<le> pos \<Longrightarrow> pos < slice_len p \<Longrightarrow> index p pos = Return (elems p ! nat pos)"
  by (simp add: index_def)

lemma pos_succ_fits:
  assumes "slice_cap p < 2 ^ 63" "0 \<le> pos" "pos < slice_len p"
  shows "int64 (pos + 1) = pos + 1"
proof -
  have "slice_len p \<le> slice_cap p"
    by (simp add: slice_len_def slice_cap_def)
  with assms show ?thesis
    by (intro int64_id) linarith+
qed

lemma int64_small: "- 256 \<le> x \<Longrightarrow> x \<le> 256 \<Longrightarrow> int64 x = x"
  by (rule int64_id) simp_all

lemma ParsePrefix_single:
  assumes "0 \<le> pos" "pos < slice_len p" "uint (elems p ! nat pos) < 128"
  shows "ParsePrefix p pos = Return (pos, 1, False, None)"
  using assms by (simp add: ParsePrefix_def index_in_len word_less_alt)

lemma ParsePrefix_short:
  assumes "slice_cap p < 2 ^ 63" "0 \<le> pos" "pos < slice_len p"
    and "128 \<le> uint (elems p ! nat pos)" "uint (elems p ! nat pos) < 184"
  shows "ParsePrefix p pos =
           Return (pos + 1, uint (elems p ! nat pos) - 128, False, None)"
proof -
  have "int64 (uint (elems p ! nat pos) - 128) = uint (elems p ! nat pos) - 128"
    using assms by (intro int64_small) linarith+
  then show ?thesis
    using assms by (simp add: ParsePrefix_def index_in_len word_less_alt pos_succ_fits)
qed

lemma ParsePrefix_short_list:
  assumes "slice_cap p < 2 ^ 63" "0 \<le> pos" "pos < slice_len p"
    and "192 \<le> uint (elems p ! nat pos)" "uint (elems p ! nat pos) < 248"
  shows "ParsePrefix p pos =
           Return (pos + 1, uint (elems p ! nat pos) - 192, True, None)"
proof -
  have "int64 (uint (elems p ! nat pos) - 192) = uint (elems p ! nat pos) - 192"
    using assms by (intro int64_small) linarith+
  then show ?thesis
    using assms by (simp add: ParsePrefix_def index_in_len word_less_alt pos_succ_fits)
qed

lemma prefix_end_fits:
  assumes "slice_cap p < 2 ^ 63" "0 \<le> pos" "0 \<le> n" "pos + 1 + n \<le> slice_len p"
  shows "int64 (pos + 1 + n) = pos + 1 + n"
proof -
  have "slice_len p \<le> slice_cap p"
    by (simp add: slice_len_def slice_cap_def)
  with assms show ?thesis
    by (intro int64_id) linarith+
qed

lemma ParsePrefix_long:
  assumes "slice_cap p < 2 ^ 63" "0 \<le> pos" "pos < slice_len p"
    and "184 \<le> uint (elems p ! nat pos)" "uint (elems p ! nat pos) < 192"
    and "pos + 1 + (uint (elems p ! nat pos) - 183) \<le> slice_len p"
  shows "ParsePrefix p pos =
           (if elems p ! nat (pos + 1) = 0
            then Return (pos + 1 + (uint (elems p ! nat pos) - 183), 0, False,
                         Some (NonCanonicalInteger (window p (pos + 1) (uint (elems p ! nat pos) - 183))))
            else Return (pos + 1 + (uint (elems p ! nat pos) - 183),
                         be_loop 0 (window p (pos + 1) (uint (elems p ! nat pos) - 183)),
                         False, None))"
proof -
  let ?n = "uint (elems p ! nat pos) - 183"
  have n: "int64 ?n = ?n"
    using assms by (intro int64_small) linarith+
  have n_pos: "0 < ?n"
    using assms by linarith
  have p1: "int64 (pos + 1) = pos + 1"
    using assms by (intro pos_succ_fits)
  have e: "int64 (pos + 1 + ?n) = pos + 1 + ?n"
    using assms n_pos by (intro prefix_end_fits) simp_all
  have b: "BeInt p (pos + 1) ?n =
             (if elems p ! nat (pos + 1) = 0
              then Return (0, Some (NonCanonicalInteger (window p (pos + 1) ?n)))
              else Return (be_loop 0 (window p (pos + 1) ?n), None))"
    using assms n_pos by (subst BeInt_in_bounds) simp_all
  have i: "index p pos = Return (elems p ! nat pos)"
    using assms by (intro index_in_len)
  show ?thesis
    unfolding ParsePrefix_def i outcome.case Let_def n p1 e b
    using assms by (simp add: word_less_alt)
qed

lemma ParsePrefix_long_list:
  assumes "slice_cap p < 2 ^ 63" "0 \<le> pos" "pos < slice_len p"
    and "248 \<le> uint (elems p ! nat pos)"
    and "pos + 1 + (uint (elems p ! nat pos) - 247) \<le> slice_len p"
  shows "ParsePrefix p pos =
           (if elems p ! nat (pos + 1) = 0
            then Return (pos + 1 + (uint (elems p ! nat pos) - 247), 0, True,
                         Some (NonCanonicalInteger (window p (pos + 1) (uint (elems p ! nat pos) - 247))))
            else Return (pos + 1 + (uint (elems p ! nat pos) - 247),
                         be_loop 0 (window p (pos + 1) (uint (elems p ! nat pos) - 247)),
                         True, None))"
proof -
  let ?n = "uint (elems p ! nat pos) - 247"
  have lt: "uint (elems p ! nat pos) < 256"
    by (rule uint_byte_less)
  have n: "int64 ?n = ?n"
    using assms lt by (intro int64_small) linarith+
  have n_pos: "0 < ?n"
    using assms by linarith
  have p1: "int64 (pos + 1) = pos + 1"
    using assms by (intro pos_succ_fits)
  have e: "int64 (pos + 1 + ?n) = pos + 1 + ?n"
    using assms n_pos by (intro prefix_end_fits) simp_all
  have b: "BeInt p (pos + 1) ?n =
             (if elems p ! nat (pos + 1) = 0
              then Return (0, Some (NonCanonicalInteger (window p (pos + 1) ?n)))
              else Return (be_loop 0 (window p (pos + 1) ?n), None))"
    using assms n_pos by (subst BeInt_in_bounds) simp_all
  have i: "index p pos = Return (elems p ! nat pos)"
    using assms by (intro index_in_len)
  show ?thesis
    unfolding ParsePrefix_def i outcome.case Let_def n p1 e b
    using assms by (simp add: word_less_alt)
qed

section \<open>The contract of BeInt\<close>

lemma foldl_be_less:
  "foldl (\<lambda>r b. r * 256 + unat (b :: byte)) r bs < (r + 1) * 256 ^ length bs"
proof (induction bs arbitrary: r)
  case Nil
  show ?case by simp
next
  case (Cons b bs)
  have "unat b < 2 ^ LENGTH(8)"
    by (rule unsigned_less)
  then have "unat b < 256"
    by simp
  then have "r * 256 + unat b + 1 \<le> (r + 1) * 256"
    by simp
  then have "(r * 256 + unat b + 1) * 256 ^ length bs \<le> (r + 1) * 256 * 256 ^ length bs"
    by (rule mult_le_mono1)
  with Cons.IH [of "r * 256 + unat b"]
  have "foldl (\<lambda>r b. r * 256 + unat b) (r * 256 + unat b) bs < (r + 1) * 256 * 256 ^ length bs"
    by (rule less_le_trans)
  then show ?case
    by (simp add: algebra_simps)
qed

lemma be_value_less: "be_value bs < 256 ^ length bs"
  using foldl_be_less [of 0 bs] by (simp add: be_value_def)

lemma be_value_short: "length bs \<le> 7 \<Longrightarrow> be_value bs < 2 ^ 63"
proof -
  assume "length bs \<le> 7"
  then have "(256 :: nat) ^ length bs \<le> 256 ^ 7"
    by (intro power_increasing) simp_all
  with be_value_less [of bs] show ?thesis
    by simp
qed

lemma length_window: "length (window p pos n) \<le> nat n"
  by (simp add: window_def)

text \<open>
  Claim C4, amended. For a window that lies in the buffer (\<open>0 \<le> pos\<close>, \<open>0 \<le> n\<close>,
  \<open>pos + n \<le> len\<close>), \<^verbatim>\<open>BeInt\<close> returns an error if and only if \<open>n > 0\<close> and the byte at
  \<open>pos\<close> is zero; for \<open>n = 0\<close> it returns the value 0; and when it returns no error and
  the big-endian value of the window is below \<open>2^63\<close>, as it is for every \<open>n \<le> 7\<close>, it
  returns that value.
\<close>
theorem BeInt_contract:
  assumes "slice_cap p < 2 ^ 63" "0 \<le> pos" "0 \<le> n" "pos + n \<le> slice_len p"
  shows "((\<exists>v e. BeInt p pos n = Return (v, Some e)) \<longleftrightarrow> 0 < n \<and> elems p ! nat pos = 0) \<and>
         (n = 0 \<longrightarrow> BeInt p pos n = Return (0, None)) \<and>
         (\<not> (0 < n \<and> elems p ! nat pos = 0) \<and> (n \<le> 7 \<or> be_value (window p pos n) < 2 ^ 63) \<longrightarrow>
            BeInt p pos n = Return (int (be_value (window p pos n)), None))"
proof -
  note b = BeInt_in_bounds [OF assms]
  have fits: "be_value (window p pos n) < 2 ^ 63" if "n \<le> 7"
  proof -
    have "length (window p pos n) \<le> 7"
      using length_window [of p pos n] that by linarith
    then show ?thesis by (rule be_value_short)
  qed
  have c1: "(\<exists>v e. BeInt p pos n = Return (v, Some e)) \<longleftrightarrow> 0 < n \<and> elems p ! nat pos = 0"
    by (simp add: b)
  have c2: "n = 0 \<longrightarrow> BeInt p pos n = Return (0, None)"
  proof
    assume "n = 0"
    with b show "BeInt p pos n = Return (0, None)"
      by (simp add: window_def)
  qed
  have c3: "BeInt p pos n = Return (int (be_value (window p pos n)), None)"
    if "\<not> (0 < n \<and> elems p ! nat pos = 0)" "n \<le> 7 \<or> be_value (window p pos n) < 2 ^ 63"
  proof -
    from that(2) fits have "be_value (window p pos n) < 2 ^ 63" by blast
    then have "be_loop 0 (window p pos n) = int (be_value (window p pos n))"
      by (rule be_loop_be_value)
    with that(1) show ?thesis by (simp add: b)
  qed
  from c1 c2 c3 show ?thesis by blast
qed

text \<open>
  Claim C4, the amended contract at the windows \<open>[1, 2]\<close>, \<open>[0, 2]\<close> and the empty
  window at the end of \<open>[1, 2]\<close>.
\<close>
theorem BeInt_contract_witness:
  "BeInt (literal [1, 2]) 0 2 = Return (258, None) \<and>
   (\<exists>v e. BeInt (literal [0, 2]) 0 2 = Return (v, Some e)) \<and>
   BeInt (literal [1, 2]) 2 0 = Return (0, None)"
proof -
  have a: "BeInt (literal [1, 2]) 0 2 = Return (258, None)"
    using BeInt_contract [of "literal [1, 2]" 0 2]
    by (simp add: literal_def slice_cap_def slice_len_def window_def be_value_def)
  have b: "\<exists>v e. BeInt (literal [0, 2]) 0 2 = Return (v, Some e)"
    using BeInt_contract [of "literal [0, 2]" 0 2]
    by (simp add: literal_def slice_cap_def slice_len_def)
  have c: "BeInt (literal [1, 2]) 2 0 = Return (0, None)"
    using BeInt_contract [of "literal [1, 2]" 2 0]
    by (simp add: literal_def slice_cap_def slice_len_def)
  from a b c show ?thesis by blast
qed

text \<open>
  Claim C4 as stated fails: the empty window at position 5 of an empty buffer makes
  the slice expression panic instead of giving 0, and the eight bytes \<open>0xFF\<close>, whose
  big-endian value is \<open>2^64 - 1\<close>, are read as \<open>-1\<close>.
\<close>
theorem BeInt_counterexample:
  "BeInt (literal []) 5 0 = Panic \<and>
   BeInt (literal [0xFF, 0xFF, 0xFF, 0xFF, 0xFF, 0xFF, 0xFF, 0xFF]) 0 8 = Return (- 1, None) \<and>
   be_value [0xFF, 0xFF, 0xFF, 0xFF, 0xFF, 0xFF, 0xFF, 0xFF] = 18446744073709551615"
  by (simp add: BeInt_def index_def slice_expr_def slice_len_def slice_cap_def literal_def
      int64_def be_value_def)

section \<open>The table of ParsePrefix\<close>

lemma ParsePrefix_long_value:
  assumes "slice_cap p < 2 ^ 63" "0 \<le> pos" "pos < slice_len p"
    and "184 \<le> uint (elems p ! nat pos)" "uint (elems p ! nat pos) < 192"
    and "length_field_ok p pos (uint (elems p ! nat pos) - 183)"
  shows "ParsePrefix p pos =
           Return (pos + 1 + (uint (elems p ! nat pos) - 183),
                   int (be_value (window p (pos + 1) (uint (elems p ! nat pos) - 183))),
                   False, None)"
proof -
  let ?n = "uint (elems p ! nat pos) - 183"
  from assms(6) have ok: "pos + 1 + ?n \<le> slice_len p" "elems p ! nat (pos + 1) \<noteq> 0"
    "be_value (window p (pos + 1) ?n) < 2 ^ 63"
    by (simp_all add: length_field_ok_def)
  from ok(3) have "be_loop 0 (window p (pos + 1) ?n) = int (be_value (window p (pos + 1) ?n))"
    by (rule be_loop_be_value)
  with ParsePrefix_long [OF assms(1-5) ok(1)] ok(2) show ?thesis
    by simp
qed

lemma ParsePrefix_long_list_value:
  assumes "slice_cap p < 2 ^ 63" "0 \<le> pos" "pos < slice_len p"
    and "248 \<le> uint (elems p ! nat pos)"
    and "length_field_ok p pos (uint (elems p ! nat pos) - 247)"
  shows "ParsePrefix p pos =
           Return (pos + 1 + (uint (elems p ! nat pos) - 247),
                   int (be_value (window p (pos + 1) (uint (elems p ! nat pos) - 247))),
                   True, None)"
proof -
  let ?n = "uint (elems p ! nat pos) - 247"
  from assms(5) have ok: "pos + 1 + ?n \<le> slice_len p" "elems p ! nat (pos + 1) \<noteq> 0"
    "be_value (window p (pos + 1) ?n) < 2 ^ 63"
    by (simp_all add: length_field_ok_def)
  from ok(3) have "be_loop 0 (window p (pos + 1) ?n) = int (be_value (window p (pos + 1) ?n))"
    by (rule be_loop_be_value)
  with ParsePrefix_long_list [OF assms(1-4) ok(1)] ok(2) show ?thesis
    by simp
qed

text \<open>
  Claim C3, amended. For every buffer and every position in it, the byte \<open>first\<close> at
  the position lies in exactly one of the five ranges. In \<open>[0,128)\<close> the result is
  \<open>(pos, 1, string)\<close>, in \<open>[128,184)\<close> it is \<open>(pos + 1, first - 128, string)\<close>, in
  \<open>[192,248)\<close> it is \<open>(pos + 1, first - 192, list)\<close>. In \<open>[184,192)\<close> and \<open>[248,256)\<close>,
  with \<open>beLen = first - 183\<close> and \<open>first - 247\<close>, the result is \<open>pos + 1 + beLen\<close> with
  the big-endian value of the \<open>beLen\<close> bytes after the first byte, as a string and as
  a list, provided these bytes lie in the buffer, the first of them is not zero, and
  their value is below \<open>2^63\<close>.
\<close>
theorem ParsePrefix_regimes:
  assumes "slice_cap p < 2 ^ 63" "0 \<le> pos" "pos < slice_len p"
    and "first = uint (elems p ! nat pos)"
  shows "(first < 128 \<or> 128 \<le> first \<and> first < 184 \<or> 184 \<le> first \<and> first < 192 \<or>
          192 \<le> first \<and> first < 248 \<or> 248 \<le> first \<and> first < 256) \<and>
         (first < 128 \<longrightarrow> ParsePrefix p pos = Return (pos, 1, False, None)) \<and>
         (128 \<le> first \<and> first < 184 \<longrightarrow>
            ParsePrefix p pos = Return (pos + 1, first - 128, False, None)) \<and>
         (184 \<le> first \<and> first < 192 \<and> length_field_ok p pos (first - 183) \<longrightarrow>
            ParsePrefix p pos =
              Return (pos + 1 + (first - 183),
                      int (be_value (window p (pos + 1) (first - 183))), False, None)) \<and>
         (192 \<le> first \<and> first < 248 \<longrightarrow>
            ParsePrefix p pos = Return (pos + 1, first - 192, True, None)) \<and>
         (248 \<le> first \<and> first < 256 \<and> length_field_ok p pos (first - 247) \<longrightarrow>
            ParsePrefix p pos =
              Return (pos + 1 + (first - 247),
                      int (be_value (window p (pos + 1) (first - 247))), True, None))"
proof -
  have total: "first < 256"
    unfolding assms(4) by (rule uint_byte_less)
  have "0 \<le> first"
    unfolding assms(4) by simp
  with total have c0: "first < 128 \<or> 128 \<le> first \<and> first < 184 \<or> 184 \<le> first \<and> first < 192 \<or>
      192 \<le> first \<and> first < 248 \<or> 248 \<le> first \<and> first < 256"
    by linarith
  have c1: "first < 128 \<longrightarrow> ParsePrefix p pos = Return (pos, 1, False, None)"
    unfolding assms(4) using assms(2,3) by (simp add: ParsePrefix_single)
  have c2: "128 \<le> first \<and> first < 184 \<longrightarrow>
      ParsePrefix p pos = Return (pos + 1, first - 128, False, None)"
    unfolding assms(4) using assms(1-3) by (simp add: ParsePrefix_short)
  have c3: "184 \<le> first \<and> first < 192 \<and> length_field_ok p pos (first - 183) \<longrightarrow>
      ParsePrefix p pos =
        Return (pos + 1 + (first - 183),
                int (be_value (window p (pos + 1) (first - 183))), False, None)"
    unfolding assms(4) using assms(1-3) by (simp add: ParsePrefix_long_value)
  have c4: "192 \<le> first \<and> first < 248 \<longrightarrow>
      ParsePrefix p pos = Return (pos + 1, first - 192, True, None)"
    unfolding assms(4) using assms(1-3) by (simp add: ParsePrefix_short_list)
  have c5: "248 \<le> first \<and> first < 256 \<and> length_field_ok p pos (first - 247) \<longrightarrow>
      ParsePrefix p pos =
        Return (pos + 1 + (first - 247),
                int (be_value (window p (pos + 1) (first - 247))), True, None)"
    unfolding assms(4) using assms(1-3) by (simp add: ParsePrefix_long_list_value)
  from c0 c1 c2 c3 c4 c5 show ?thesis
    by blast
qed

text \<open>Claim C3, the amended table at one buffer for each of the five ranges.\<close>
theorem ParsePrefix_regimes_witness:
  "ParsePrefix (literal [0x7F]) 0 = Return (0, 1, False, None) \<and>
   ParsePrefix (literal [0x05, 0xB7]) 1 = Return (2, 55, False, None) \<and>
   ParsePrefix (literal [0xB9, 0x01, 0x02]) 0 = Return (3, 258, False, None) \<and>
   ParsePrefix (literal [0xC0]) 0 = Return (1, 0, True, None) \<and>
   ParsePrefix (literal [0xF8, 0x38]) 0 = Return (2, 56, True, None)"
proof -
  have a: "ParsePrefix (literal [0x7F]) 0 = Return (0, 1, False, None)"
    using ParsePrefix_regimes [of "literal [0x7F]" 0 127]
    by (simp add: literal_def slice_cap_def slice_len_def)
  have b: "ParsePrefix (literal [0x05, 0xB7]) 1 = Return (2, 55, False, None)"
    using ParsePrefix_regimes [of "literal [0x05, 0xB7]" 1 183]
    by (simp add: literal_def slice_cap_def slice_len_def)
  have c: "ParsePrefix (literal [0xB9, 0x01, 0x02]) 0 = Return (3, 258, False, None)"
    using ParsePrefix_regimes [of "literal [0xB9, 0x01, 0x02]" 0 185]
    by (simp add: literal_def slice_cap_def slice_len_def length_field_ok_def window_def
        be_value_def)
  have d: "ParsePrefix (literal [0xC0]) 0 = Return (1, 0, True, None)"
    using ParsePrefix_regimes [of "literal [0xC0]" 0 192]
    by (simp add: literal_def slice_cap_def slice_len_def)
  have e: "ParsePrefix (literal [0xF8, 0x38]) 0 = Return (2, 56, True, None)"
    using ParsePrefix_regimes [of "literal [0xF8, 0x38]" 0 248]
    by (simp add: literal_def slice_cap_def slice_len_def length_field_ok_def window_def
        be_value_def)
  from a b c d e show ?thesis by blast
qed

text \<open>
  Claim C3 as stated fails in the long regimes: on \<open>[0xB8]\<close> the length field is
  outside the buffer and the read panics; on \<open>[0xB9, 0x00, 0x05]\<close> the length field
  has the value 5 and the result is an error with payload length 0; on \<open>0xBF\<close>
  followed by eight bytes \<open>0xFF\<close> the payload length is \<open>-1\<close>.
\<close>
theorem ParsePrefix_regimes_counterexample:
  "ParsePrefix (literal [0xB8]) 0 = Panic \<and>
   ParsePrefix (literal [0xB9, 0x00, 0x05]) 0 =
     Return (3, 0, False, Some (NonCanonicalInteger [0x00, 0x05])) \<and>
   be_value [0x00, 0x05] = 5 \<and>
   ParsePrefix (literal [0xBF, 0xFF, 0xFF, 0xFF, 0xFF, 0xFF, 0xFF, 0xFF, 0xFF]) 0 =
     Return (9, - 1, False, None) \<and>
   be_value [0xFF, 0xFF, 0xFF, 0xFF, 0xFF, 0xFF, 0xFF, 0xFF] = 18446744073709551615"
  by (simp add: ParsePrefix_def BeInt_def index_def slice_expr_def slice_len_def slice_cap_def
      literal_def int64_def be_value_def)

section \<open>The end-of-payload check of the scalar decoders\<close>

lemma U64_unexpected_end_iff:
  assumes "ParsePrefix p pos = Return (e, d, False, None)"
  shows "U64 p pos = Return (0, 0, Some UnexpectedEndOfPayload) \<longleftrightarrow> slice_len p \<le> int64 (e + d)"
  using assms by (simp add: U64_def split: outcome.splits)

lemma U256_unexpected_end_iff:
  assumes "ParsePrefix p pos = Return (e, d, False, None)"
  shows "(\<exists>y. U256 p pos x = Return (y, 0, Some UnexpectedEndOfPayload)) \<longleftrightarrow>
         slice_len p < int64 (e + d)"
  using assms by (auto simp add: U256_def split: outcome.splits)

text \<open>
  Claim C1 at the buffer \<open>[0x05]\<close>: the prefix is \<open>(0, 1, string)\<close>, the payload
  window \<open>[0, 1)\<close> ends where the buffer of length 1 ends, and \<^verbatim>\<open>U64\<close> fails with
  "unexpected end of payload", while \<^verbatim>\<open>U256\<close> decodes the value 5.
\<close>
theorem U64_rejects_exact_fit:
  "ParsePrefix (literal [0x05]) 0 = Return (0, 1, False, None) \<and>
   slice_len (literal [0x05]) = 1 \<and>
   U64 (literal [0x05]) 0 = Return (0, 0, Some UnexpectedEndOfPayload) \<and>
   U256 (literal [0x05]) 0 0 = Return (5, 1, None)"
  by (simp add: U64_def U256_def SetBytes_def ParsePrefix_def index_def slice_expr_def
      slice_len_def slice_cap_def literal_def int64_def)

text \<open>
  Claim C2 at the buffer \<open>[0x80]\<close>: \<^verbatim>\<open>U64\<close> fails with "unexpected end of payload";
  it returns the value 0 and the position 1 once a further byte follows.
\<close>
theorem U64_zero_at_end:
  "U64 (literal [0x80]) 0 = Return (0, 0, Some UnexpectedEndOfPayload) \<and>
   U64 (literal [0x80, 0x00]) 0 = Return (1, 0, None)"
  by (simp add: U64_def ParsePrefix_def index_def slice_expr_def
      slice_len_def slice_cap_def literal_def int64_def)

text \<open>
  Claim C5 at the buffer \<open>[0x82, 0x00, 0x01]\<close>: \<^verbatim>\<open>U64\<close> fails with "unexpected end
  of payload", before the check for a leading zero is reached; that check answers
  once a further byte follows.
\<close>
theorem U64_leading_zero_at_end:
  "U64 (literal [0x82, 0x00, 0x01]) 0 = Return (0, 0, Some UnexpectedEndOfPayload) \<and>
   U64 (literal [0x82, 0x00, 0x01, 0x00]) 0 =
     Return (0, 0, Some (NonCanonicalInteger [0x00, 0x01]))"
  by (simp add: U64_def ParsePrefix_def index_def slice_expr_def
      slice_len_def slice_cap_def literal_def int64_def)

text \<open>
  Claim C6 at the buffer \<open>0xBF\<close> followed by eight bytes \<open>0xFF\<close>: \<^verbatim>\<open>ParsePrefix\<close>
  returns without error the payload length \<open>-1\<close>, and \<^verbatim>\<open>U64\<close> then panics on the
  slice expression \<^verbatim>\<open>payload[9:8]\<close>.
\<close>
theorem ParsePrefix_negative_length:
  "ParsePrefix (literal [0xBF, 0xFF, 0xFF, 0xFF, 0xFF, 0xFF, 0xFF, 0xFF, 0xFF]) 0 =
     Return (9, - 1, False, None) \<and>
   U64 (literal [0xBF, 0xFF, 0xFF, 0xFF, 0xFF, 0xFF, 0xFF, 0xFF, 0xFF]) 0 = Panic"
  by (simp add: U64_def ParsePrefix_def BeInt_def index_def slice_expr_def
      slice_len_def slice_cap_def literal_def int64_def)

section \<open>Ranges of the results\<close>

lemma int64_range: "- (2 ^ 63) \<le> int64 x \<and> int64 x < 2 ^ 63"
  by (simp add: int64_def)

lemma or_byte_range:
  assumes "- (2 ^ 63) \<le> k" "k < 2 ^ 63"
  shows "- (2 ^ 63) \<le> k OR uint (b :: byte) \<and> k OR uint b < 2 ^ 63"
proof (cases "0 \<le> k")
  case True
  have "uint b < 2 ^ 63"
    using uint_byte_less [of b] by simp
  with True assms have "k OR uint b < 2 ^ 63"
    by (intro OR_upper) simp_all
  moreover have "- (2 ^ 63) \<le> k OR uint b"
  proof -
    have "- (2 ^ 63) \<le> (0 :: int)" by simp
    also have "0 \<le> k OR uint b" using True by simp
    finally show ?thesis .
  qed
  ultimately show ?thesis by blast
next
  case False
  then have "k OR uint b < 0"
    by simp
  also have "(0 :: int) < 2 ^ 63"
    by simp
  finally have hi: "k OR uint b < 2 ^ 63" .
  have "k \<le> k OR uint b"
    by (rule or_greater_eq) simp
  with assms(1) have "- (2 ^ 63) \<le> k OR uint b"
    by (rule order_trans)
  with hi show ?thesis by blast
qed

lemma be_loop_range:
  "- (2 ^ 63) \<le> r \<Longrightarrow> r < 2 ^ 63 \<Longrightarrow> - (2 ^ 63) \<le> be_loop r bs \<and> be_loop r bs < 2 ^ 63"
proof (induction bs arbitrary: r)
  case Nil
  then show ?case by simp
next
  case (Cons b bs)
  have "- (2 ^ 63) \<le> int64 (push_bit 8 r) OR uint b \<and> int64 (push_bit 8 r) OR uint b < 2 ^ 63"
    using int64_range [of "push_bit 8 r"] by (intro or_byte_range) simp_all
  then show ?case
    using Cons.IH [of "int64 (push_bit 8 r) OR uint b"] by simp
qed

lemma BeInt_range:
  assumes "BeInt p pos n = Return (v, err)"
  shows "- (2 ^ 63) \<le> v \<and> v < 2 ^ 63 \<and> pos \<le> int64 (pos + n)"
proof -
  from assms obtain bs where s: "slice_expr p pos (int64 (pos + n)) = Return bs"
    by (auto simp: BeInt_def split: outcome.splits)
  then have le: "pos \<le> int64 (pos + n)"
    by (simp add: slice_expr_def split: if_splits)
  from assms s have "v = 0 \<or> v = be_loop 0 bs"
    by (auto simp: BeInt_def split: outcome.splits if_splits)
  moreover have "- (2 ^ 63) \<le> be_loop 0 bs \<and> be_loop 0 bs < 2 ^ 63"
    by (rule be_loop_range) simp_all
  ultimately show ?thesis
    using le by auto
qed

lemma ParsePrefix_range:
  assumes "slice_cap p < 2 ^ 63" "ParsePrefix p pos = Return (e, d, l, err)"
  shows "0 \<le> pos \<and> pos < slice_len p \<and> pos \<le> e \<and> - (2 ^ 63) \<le> d \<and> d < 2 ^ 63"
proof -
  from assms(2) have i: "0 \<le> pos" "pos < slice_len p"
    by (auto simp: ParsePrefix_def index_def split: if_splits)
  then have idx: "index p pos = Return (elems p ! nat pos)"
    by (simp add: index_def)
  have p1: "int64 (pos + 1) = pos + 1"
    using assms(1) i by (intro pos_succ_fits)
  let ?f = "elems p ! nat pos"
  have "pos \<le> e \<and> - (2 ^ 63) \<le> d \<and> d < 2 ^ 63"
  proof (cases "?f < 128")
    case True
    with assms(2) show ?thesis
      by (simp add: ParsePrefix_def idx)
  next
    case single: False
    show ?thesis
    proof (cases "?f < 184 \<or> (\<not> ?f < 192 \<and> ?f < 248)")
      case True
      with single assms(2)
      have "e = pos + 1" "d = int64 (uint ?f - 128) \<or> d = int64 (uint ?f - 192)"
        by (auto simp: ParsePrefix_def idx p1 split: if_splits)
      then show ?thesis
        using int64_range by auto
    next
      case False
      define n where "n = (if ?f < 192 then int64 (uint ?f - 183) else int64 (uint ?f - 247))"
      from single False have pp: "ParsePrefix p pos =
          (case BeInt p (pos + 1) n of
             Panic \<Rightarrow> Panic
           | Return (dataLen, err) \<Rightarrow> Return (int64 (pos + 1 + n), dataLen, \<not> ?f < 192, err))"
      proof (cases "?f < 192")
        case True
        with single False show ?thesis
          by (simp add: ParsePrefix_def idx p1 Let_def n_def split: outcome.splits)
      next
        case long_list: False
        with False have "\<not> ?f < 248" "\<not> ?f < 184"
          by simp_all
        with single long_list show ?thesis
          by (simp add: ParsePrefix_def idx p1 Let_def n_def split: outcome.splits)
      qed
      from assms(2) obtain r where r: "BeInt p (pos + 1) n = Return r"
        unfolding pp by (cases "BeInt p (pos + 1) n") simp_all
      obtain v err' where r': "r = (v, err')"
        by (cases r)
      from assms(2) have "e = int64 (pos + 1 + n)" "d = v"
        unfolding pp r r' by simp_all
      with BeInt_range [of p "pos + 1" n v err'] r r' show ?thesis
        by simp
    qed
  qed
  with i show ?thesis by simp
qed

section \<open>Slices in the heap\<close>

lemma slice_cap_view: "wf_slice h s \<Longrightarrow> slice_cap (view h s) < 2 ^ 63"
proof -
  assume wf: "wf_slice h s"
  have "slice_cap (view h s) \<le> int (scap s)"
    by (auto simp: slice_cap_def view_def Let_def min_def split: option.splits)
  also from wf have "int (scap s) < 2 ^ 63"
    by (simp add: wf_slice_def)
  finally show ?thesis .
qed

lemma view_append: "wf_slice h s \<Longrightarrow> view (h @ [xs]) s = view h s"
  by (auto simp: wf_slice_def view_def nth_append split: option.splits)

lemma overwrite_read:
  "i + length ys \<le> length xs \<Longrightarrow> take (length ys) (drop i (overwrite xs i ys)) = ys"
  by (simp add: overwrite_def)

lemma elems_view_copy:
  assumes "array s = Some a" "a < length h" "offset s + scap s \<le> length (h ! a)"
    and "slen s \<le> scap s" "length src = slen s"
  shows "elems (view (copy h s src) s) = src"
proof -
  let ?xs = "overwrite (h ! a) (offset s) src"
  have len: "length ?xs = length (h ! a)"
    using assms by (simp add: overwrite_def)
  have "take (slen s) (take (scap s) (drop (offset s) ?xs)) = take (length src) (drop (offset s) ?xs)"
    using assms by (simp add: min_def)
  also have "\<dots> = src"
    using assms by (intro overwrite_read) simp
  finally show ?thesis
    using assms by (simp add: view_def copy_def Let_def)
qed

lemma length_copy: "length (copy h s src) = length h"
  by (simp add: copy_def split: option.splits)

lemma window_length:
  "0 \<le> e \<Longrightarrow> 0 \<le> n \<Longrightarrow> e + n \<le> slice_len p \<Longrightarrow> length (window p e n) = nat n"
  by (simp add: window_def slice_len_def)

text \<open>The success path of ParseHash, with the output slice and the heap it leaves.\<close>

lemma ParseHash_success:
  assumes wf: "wf_slice h payload"
    and pp: "ParsePrefix (view h payload) pos = Return (e, 32, False, None)"
    and fit: "e + 32 \<le> slice_len (view h payload)"
  shows "ParseHash h payload pos hashbuf =
           (if scap hashbuf < 32
            then Return (copy (h @ [replicate 32 0])
                           \<lparr>array = Some (length h), offset = 0, slen = 32, scap = 32\<rparr>
                           (window (view h payload) e 32),
                         \<lparr>array = Some (length h), offset = 0, slen = 32, scap = 32\<rparr>,
                         e + 32, None)
            else Return (copy h (hashbuf\<lparr>slen := 32\<rparr>) (window (view h payload) e 32),
                         hashbuf\<lparr>slen := 32\<rparr>, e + 32, None))"
proof -
  let ?p = "view h payload"
  have cap: "slice_cap ?p < 2 ^ 63"
    using wf by (rule slice_cap_view)
  from ParsePrefix_range [OF cap pp] have e0: "0 \<le> e"
    by simp
  have s: "slice_expr ?p e (int64 (e + 32)) = Return (window ?p e 32)"
    using cap e0 fit by (intro slice_expr_in_len) simp_all
  have le: "slice_len ?p \<le> slice_cap ?p"
    by (simp add: slice_len_def slice_cap_def)
  have sum: "int64 (e + 32) = e + 32"
    using cap e0 fit le by (intro int64_id) linarith+
  note s = s [unfolded sum]
  have v: "view (h @ [replicate 32 0]) payload = ?p"
    using wf by (rule view_append)
  show ?thesis
    unfolding ParseHash_def Let_def pp
    using fit by (simp add: ensureEnoughSize_def sum s v)
qed

lemma ParseHash_success_view:
  assumes wf: "wf_slice h payload" and wfb: "wf_slice h hashbuf"
    and pp: "ParsePrefix (view h payload) pos = Return (e, 32, False, None)"
    and fit: "e + 32 \<le> slice_len (view h payload)"
  shows "\<exists>h' out. ParseHash h payload pos hashbuf = Return (h', out, e + 32, None) \<and>
           length (window (view h payload) e 32) = 32 \<and>
           elems (view h' out) = window (view h payload) e 32 \<and>
           (32 \<le> scap hashbuf \<longrightarrow> out = hashbuf\<lparr>slen := 32\<rparr> \<and> length h' = length h) \<and>
           (scap hashbuf < 32 \<longrightarrow>
              out = \<lparr>array = Some (length h), offset = 0, slen = 32, scap = 32\<rparr> \<and>
              length h' = Suc (length h) \<and> take (length h) h' = h)"
proof -
  let ?src = "window (view h payload) e 32"
  have cap: "slice_cap (view h payload) < 2 ^ 63"
    using wf by (rule slice_cap_view)
  from ParsePrefix_range [OF cap pp] have e0: "0 \<le> e"
    by simp
  have len: "length ?src = 32"
    using e0 fit by (simp add: window_length)
  note ph = ParseHash_success [OF wf pp fit, of hashbuf]
  show ?thesis
  proof (cases "scap hashbuf < 32")
    case True
    let ?out = "\<lparr>array = Some (length h), offset = 0, slen = 32, scap = 32\<rparr>"
    let ?h' = "copy (h @ [replicate 32 0]) ?out ?src"
    from True ph have r: "ParseHash h payload pos hashbuf = Return (?h', ?out, e + 32, None)"
      by simp
    have v: "elems (view ?h' ?out) = ?src"
      using len by (intro elems_view_copy [where a = "length h"]) simp_all
    have "?h' = h @ [overwrite (replicate 32 0) 0 (take 32 ?src)]"
      by (simp add: copy_def)
    then have "length ?h' = Suc (length h)" "take (length h) ?h' = h"
      by simp_all
    with r v len True show ?thesis
      by auto
  next
    case False
    let ?out = "hashbuf\<lparr>slen := 32\<rparr>"
    let ?h' = "copy h ?out ?src"
    from False ph have r: "ParseHash h payload pos hashbuf = Return (?h', ?out, e + 32, None)"
      by simp
    from False wfb obtain a where a: "array hashbuf = Some a" "a < length h"
      "offset hashbuf + scap hashbuf \<le> length (h ! a)"
      by (auto simp: wf_slice_def split: option.splits)
    have v: "elems (view ?h' ?out) = ?src"
      using a len False by (intro elems_view_copy [where a = a]) simp_all
    have "length ?h' = length h"
      by (rule length_copy)
    with r v len False show ?thesis
      by auto
  qed
qed

lemma U64_list:
  "ParsePrefix p pos = Return (e, d, True, None) \<Longrightarrow> U64 p pos = Return (0, 0, Some WrongElementKind)"
  by (simp add: U64_def)

lemma ParseHash_list:
  "ParsePrefix (view h payload) pos = Return (e, d, True, None) \<Longrightarrow>
   ParseHash h payload pos hashbuf = Return (h, nil, 0, Some (ParseHashError WrongElementKind))"
  by (simp add: ParseHash_def)

lemma ParseHash_wrong_length:
  assumes wf: "wf_slice h payload"
    and pp: "ParsePrefix (view h payload) pos = Return (e, d, False, None)"
    and fit: "e + d \<le> slice_len (view h payload)" and d: "d \<noteq> 32"
  shows "ParseHash h payload pos hashbuf = Return (h, nil, 0, Some (ParseHashError InvalidHashLength))"
proof -
  have cap: "slice_cap (view h payload) < 2 ^ 63"
    using wf by (rule slice_cap_view)
  have le: "slice_len (view h payload) \<le> slice_cap (view h payload)"
    by (simp add: slice_len_def slice_cap_def)
  from ParsePrefix_range [OF cap pp] have "0 \<le> e" "- (2 ^ 63) \<le> d"
    by simp_all
  then have "int64 (e + d) = e + d"
    using cap fit le by (intro int64_id) linarith+
  with fit d show ?thesis
    by (simp add: ParseHash_def pp)
qed

text \<open>
  Claim C10. Whenever \<^verbatim>\<open>ParseHash\<close> returns an error, the returned buffer is \<^verbatim>\<open>nil\<close>,
  the returned position is 0, and the heap is the one it was called with: no backing
  array, the one of the caller's output buffer included, has been written.
\<close>
theorem ParseHash_error_result:
  "ParseHash h payload pos hashbuf = Return (h', out, p, Some err) \<Longrightarrow>
   h' = h \<and> out = nil \<and> p = 0"
  by (auto simp: ParseHash_def Let_def ensureEnoughSize_def
      split: outcome.splits option.splits if_splits prod.splits)

section \<open>The hash extractor\<close>

text \<open>
  Claim C7. On a string-kind element whose payload window fits in the buffer,
  \<^verbatim>\<open>ParseHash\<close> fails with "hash must be 32 bytes long" whenever the payload length
  is not 32; when it is 32, \<^verbatim>\<open>ParseHash\<close> succeeds, the returned position is
  \<open>headerEnd + 32\<close>, and the elements of the returned buffer are the 32 payload bytes
  that the input buffer held at the call.
\<close>
theorem ParseHash_hash_length:
  assumes "wf_slice h payload" "wf_slice h hashbuf"
    and "ParsePrefix (view h payload) pos = Return (e, d, False, None)"
    and "e + d \<le> slice_len (view h payload)"
  shows "(d \<noteq> 32 \<longrightarrow>
            ParseHash h payload pos hashbuf =
              Return (h, nil, 0, Some (ParseHashError InvalidHashLength))) \<and>
         (d = 32 \<longrightarrow>
            (\<exists>h' out. ParseHash h payload pos hashbuf = Return (h', out, e + 32, None) \<and>
               length (window (view h payload) e 32) = 32 \<and>
               elems (view h' out) = window (view h payload) e 32))"
proof (intro conjI impI)
  assume "d \<noteq> 32"
  with assms(1,3,4) show "ParseHash h payload pos hashbuf =
      Return (h, nil, 0, Some (ParseHashError InvalidHashLength))"
    by (rule ParseHash_wrong_length)
next
  assume "d = 32"
  with assms(3,4) have "ParsePrefix (view h payload) pos = Return (e, 32, False, None)"
    "e + 32 \<le> slice_len (view h payload)"
    by simp_all
  from ParseHash_success_view [OF assms(1,2) this]
  show "\<exists>h' out. ParseHash h payload pos hashbuf = Return (h', out, e + 32, None) \<and>
      length (window (view h payload) e 32) = 32 \<and>
      elems (view h' out) = window (view h payload) e 32"
    by blast
qed

text \<open>
  Claim C7 at a 32-byte string, decoded into an output buffer of capacity 38, and at
  a 31-byte string.
\<close>
theorem ParseHash_hash_length_witness:
  "(\<exists>h' out.
      ParseHash [0xA0 # replicate 32 0x11, replicate 40 0xEE]
        \<lparr>array = Some 0, offset = 0, slen = 33, scap = 33\<rparr> 0
        \<lparr>array = Some 1, offset = 2, slen = 0, scap = 38\<rparr> = Return (h', out, 33, None) \<and>
      elems (view h' out) = replicate 32 0x11) \<and>
   ParseHash [0x9F # replicate 31 0x11, replicate 40 0xEE]
     \<lparr>array = Some 0, offset = 0, slen = 32, scap = 32\<rparr> 0
     \<lparr>array = Some 1, offset = 2, slen = 0, scap = 38\<rparr> =
     Return ([0x9F # replicate 31 0x11, replicate 40 0xEE], nil, 0,
             Some (ParseHashError InvalidHashLength))"
proof -
  let ?B = "\<lparr>array = Some 1, offset = 2, slen = 0, scap = 38\<rparr>"
  let ?H = "[0xA0 # replicate 32 0x11, replicate 40 (0xEE :: byte)]"
  let ?P = "\<lparr>array = Some 0, offset = 0, slen = 33, scap = 33\<rparr>"
  have v: "view ?H ?P = \<lparr>elems = 0xA0 # replicate 32 0x11, spare = []\<rparr>"
    by (simp add: view_def)
  have 1: "wf_slice ?H ?P" "wf_slice ?H ?B"
    by (simp_all add: wf_slice_def)
  have 2: "ParsePrefix (view ?H ?P) 0 = Return (1, 32, False, None)"
    by (simp add: v ParsePrefix_def index_def slice_len_def int64_def)
  have 3: "1 + 32 \<le> slice_len (view ?H ?P)"
    by (simp add: v slice_len_def)
  have w: "window (view ?H ?P) 1 32 = replicate 32 0x11"
    by (simp add: v window_def)
  from ParseHash_hash_length [OF 1 2 3]
  have a: "\<exists>h' out. ParseHash ?H ?P 0 ?B = Return (h', out, 33, None) \<and>
      elems (view h' out) = replicate 32 0x11"
    by (simp add: w)
  let ?H' = "[0x9F # replicate 31 0x11, replicate 40 (0xEE :: byte)]"
  let ?P' = "\<lparr>array = Some 0, offset = 0, slen = 32, scap = 32\<rparr>"
  have v': "view ?H' ?P' = \<lparr>elems = 0x9F # replicate 31 0x11, spare = []\<rparr>"
    by (simp add: view_def)
  have 4: "wf_slice ?H' ?P'" "wf_slice ?H' ?B"
    by (simp_all add: wf_slice_def)
  have 5: "ParsePrefix (view ?H' ?P') 0 = Return (1, 31, False, None)"
    by (simp add: v' ParsePrefix_def index_def slice_len_def int64_def)
  have 6: "1 + 31 \<le> slice_len (view ?H' ?P')"
    by (simp add: v' slice_len_def)
  from ParseHash_hash_length [OF 4 5 6]
  have b: "ParseHash ?H' ?P' 0 ?B =
      Return (?H', nil, 0, Some (ParseHashError InvalidHashLength))"
    by simp
  from a b show ?thesis by blast
qed

text \<open>
  Claim C8. On the success path, when the output buffer has capacity at least 32 the
  returned buffer is the caller's slice with the length set to 32 (the same backing
  array and offset), no array is allocated, and its 32 elements are the payload
  bytes; when the capacity is less than 32 the returned buffer is a new array of
  length and capacity 32 holding the payload bytes, and the arrays that existed
  before are unchanged.
\<close>
theorem ParseHash_buffer_reuse:
  assumes "wf_slice h payload" "wf_slice h hashbuf"
    and "ParsePrefix (view h payload) pos = Return (e, 32, False, None)"
    and "e + 32 \<le> slice_len (view h payload)"
  shows "\<exists>h' out. ParseHash h payload pos hashbuf = Return (h', out, e + 32, None) \<and>
           length (window (view h payload) e 32) = 32 \<and>
           elems (view h' out) = window (view h payload) e 32 \<and>
           (32 \<le> scap hashbuf \<longrightarrow> out = hashbuf\<lparr>slen := 32\<rparr> \<and> length h' = length h) \<and>
           (scap hashbuf < 32 \<longrightarrow>
              out = \<lparr>array = Some (length h), offset = 0, slen = 32, scap = 32\<rparr> \<and>
              length h' = Suc (length h) \<and> take (length h) h' = h)"
  using assms by (rule ParseHash_success_view)

text \<open>
  Claim C8 at an output buffer of capacity 38, which is reused, and at one of
  capacity 30, for which the array 2 is allocated.
\<close>
theorem ParseHash_buffer_reuse_witness:
  "(\<exists>h'. ParseHash [0xA0 # replicate 32 0x11, replicate 40 0xEE]
        \<lparr>array = Some 0, offset = 0, slen = 33, scap = 33\<rparr> 0
        \<lparr>array = Some 1, offset = 2, slen = 5, scap = 38\<rparr> =
        Return (h', \<lparr>array = Some 1, offset = 2, slen = 32, scap = 38\<rparr>, 33, None) \<and>
      length h' = 2 \<and>
      elems (view h' \<lparr>array = Some 1, offset = 2, slen = 32, scap = 38\<rparr>) = replicate 32 0x11) \<and>
   (\<exists>h'. ParseHash [0xA0 # replicate 32 0x11, replicate 40 0xEE]
        \<lparr>array = Some 0, offset = 0, slen = 33, scap = 33\<rparr> 0
        \<lparr>array = Some 1, offset = 10, slen = 5, scap = 30\<rparr> =
        Return (h', \<lparr>array = Some 2, offset = 0, slen = 32, scap = 32\<rparr>, 33, None) \<and>
      length h' = 3 \<and>
      elems (view h' \<lparr>array = Some 2, offset = 0, slen = 32, scap = 32\<rparr>) = replicate 32 0x11)"
proof -
  let ?H = "[0xA0 # replicate 32 0x11, replicate 40 (0xEE :: byte)]"
  let ?P = "\<lparr>array = Some 0, offset = 0, slen = 33, scap = 33\<rparr>"
  let ?B = "\<lparr>array = Some 1, offset = 2, slen = 5, scap = 38\<rparr>"
  let ?C = "\<lparr>array = Some 1, offset = 10, slen = 5, scap = 30\<rparr>"
  have v: "view ?H ?P = \<lparr>elems = 0xA0 # replicate 32 0x11, spare = []\<rparr>"
    by (simp add: view_def)
  have 1: "wf_slice ?H ?P" "wf_slice ?H ?B" "wf_slice ?H ?C"
    by (simp_all add: wf_slice_def)
  have 2: "ParsePrefix (view ?H ?P) 0 = Return (1, 32, False, None)"
    by (simp add: v ParsePrefix_def index_def slice_len_def int64_def)
  have 3: "1 + 32 \<le> slice_len (view ?H ?P)"
    by (simp add: v slice_len_def)
  have w: "window (view ?H ?P) 1 32 = replicate 32 0x11"
    by (simp add: v window_def)
  from ParseHash_buffer_reuse [OF 1(1) 1(2) 2 3]
  have a: "\<exists>h'. ParseHash ?H ?P 0 ?B =
        Return (h', \<lparr>array = Some 1, offset = 2, slen = 32, scap = 38\<rparr>, 33, None) \<and>
      length h' = 2 \<and>
      elems (view h' \<lparr>array = Some 1, offset = 2, slen = 32, scap = 38\<rparr>) = replicate 32 0x11"
    by (auto simp: w)
  from ParseHash_buffer_reuse [OF 1(1) 1(3) 2 3]
  have b: "\<exists>h'. ParseHash ?H ?P 0 ?C =
        Return (h', \<lparr>array = Some 2, offset = 0, slen = 32, scap = 32\<rparr>, 33, None) \<and>
      length h' = 3 \<and>
      elems (view h' \<lparr>array = Some 2, offset = 0, slen = 32, scap = 32\<rparr>) = replicate 32 0x11"
    by (auto simp: w numeral_2_eq_2 numeral_3_eq_3)
  from a b show ?thesis by blast
qed

section \<open>Elements of list kind\<close>

lemma ParsePrefix_is_list:
  assumes "slice_cap p < 2 ^ 63" "0 \<le> pos" "pos < slice_len p"
    and "192 \<le> uint (elems p ! nat pos)"
    and "uint (elems p ! nat pos) < 248 \<or>
         pos + 1 + (uint (elems p ! nat pos) - 247) \<le> slice_len p \<and> elems p ! nat (pos + 1) \<noteq> 0"
  shows "\<exists>e d. ParsePrefix p pos = Return (e, d, True, None)"
proof (cases "uint (elems p ! nat pos) < 248")
  case True
  with ParsePrefix_short_list [OF assms(1-4)] show ?thesis
    by blast
next
  case False
  with assms(5) have ok: "pos + 1 + (uint (elems p ! nat pos) - 247) \<le> slice_len p"
    "elems p ! nat (pos + 1) \<noteq> 0"
    by simp_all
  from False have "248 \<le> uint (elems p ! nat pos)"
    by simp
  from ParsePrefix_long_list [OF assms(1-3) this ok(1)] ok(2) show ?thesis
    by simp
qed

text \<open>
  Claim C9, amended. For every buffer and every position in it whose byte \<open>first\<close> is
  at least 192, \<^verbatim>\<open>U64\<close> and \<^verbatim>\<open>ParseHash\<close> fail with "must be a string, not list",
  provided that \<open>first < 248\<close> or that the \<open>first - 247\<close> bytes of the length field lie
  in the buffer and do not start with a zero byte.
\<close>
theorem list_element_rejected:
  assumes "wf_slice h payload" "p = view h payload" "0 \<le> pos" "pos < slice_len p"
    and "first = uint (elems p ! nat pos)" "192 \<le> first"
    and "first < 248 \<or> pos + 1 + (first - 247) \<le> slice_len p \<and> elems p ! nat (pos + 1) \<noteq> 0"
  shows "U64 p pos = Return (0, 0, Some WrongElementKind) \<and>
         ParseHash h payload pos hashbuf =
           Return (h, nil, 0, Some (ParseHashError WrongElementKind))"
proof -
  have cap: "slice_cap p < 2 ^ 63"
    unfolding assms(2) using assms(1) by (rule slice_cap_view)
  from assms(6,7) have "192 \<le> uint (elems p ! nat pos)"
    "uint (elems p ! nat pos) < 248 \<or>
     pos + 1 + (uint (elems p ! nat pos) - 247) \<le> slice_len p \<and> elems p ! nat (pos + 1) \<noteq> 0"
    unfolding assms(5) by simp_all
  from ParsePrefix_is_list [OF cap assms(3,4) this]
  obtain e d where pp: "ParsePrefix p pos = Return (e, d, True, None)"
    by blast
  from pp have "U64 p pos = Return (0, 0, Some WrongElementKind)"
    by (rule U64_list)
  moreover from pp have "ParseHash h payload pos hashbuf =
      Return (h, nil, 0, Some (ParseHashError WrongElementKind))"
    unfolding assms(2) by (rule ParseHash_list)
  ultimately show ?thesis by blast
qed

text \<open>Claim C9, amended, at the short list \<open>[0xC1, 0x05]\<close> and the long list \<open>[0xF8, 0x38]\<close>.\<close>
theorem list_element_rejected_witness:
  "U64 (view [[0xC1, 0x05]] \<lparr>array = Some 0, offset = 0, slen = 2, scap = 2\<rparr>) 0 =
     Return (0, 0, Some WrongElementKind) \<and>
   ParseHash [[0xC1, 0x05]] \<lparr>array = Some 0, offset = 0, slen = 2, scap = 2\<rparr> 0 nil =
     Return ([[0xC1, 0x05]], nil, 0, Some (ParseHashError WrongElementKind)) \<and>
   U64 (view [[0xF8, 0x38]] \<lparr>array = Some 0, offset = 0, slen = 2, scap = 2\<rparr>) 0 =
     Return (0, 0, Some WrongElementKind) \<and>
   ParseHash [[0xF8, 0x38]] \<lparr>array = Some 0, offset = 0, slen = 2, scap = 2\<rparr> 0 nil =
     Return ([[0xF8, 0x38]], nil, 0, Some (ParseHashError WrongElementKind))"
proof -
  let ?P = "\<lparr>array = Some 0, offset = 0, slen = 2, scap = 2\<rparr>"
  have a: "U64 (view [[0xC1, 0x05]] ?P) 0 = Return (0, 0, Some WrongElementKind) \<and>
      ParseHash [[0xC1, 0x05]] ?P 0 nil =
        Return ([[0xC1, 0x05]], nil, 0, Some (ParseHashError WrongElementKind))"
    by (rule list_element_rejected [where first = 193])
      (simp_all add: wf_slice_def view_def slice_len_def)
  have b: "U64 (view [[0xF8, 0x38]] ?P) 0 = Return (0, 0, Some WrongElementKind) \<and>
      ParseHash [[0xF8, 0x38]] ?P 0 nil =
        Return ([[0xF8, 0x38]], nil, 0, Some (ParseHashError WrongElementKind))"
    by (rule list_element_rejected [where first = 248])
      (simp_all add: wf_slice_def view_def slice_len_def)
  from a b show ?thesis by blast
qed

text \<open>
  Claim C9 as stated fails at the buffer \<open>[0xF8, 0x00]\<close>: its first byte is at least
  192, the length field starts with a zero byte, and both decoders return the error
  of the prefix, "integer encoding for RLP must not have leading zeros".
\<close>
theorem list_element_rejected_counterexample:
  "U64 (literal [0xF8, 0x00]) 0 = Return (0, 0, Some (NonCanonicalInteger [0x00])) \<and>
   ParseHash [[0xF8, 0x00]] \<lparr>array = Some 0, offset = 0, slen = 2, scap = 2\<rparr> 0 nil =
     Return ([[0xF8, 0x00]], nil, 0, Some (ParseHashError (NonCanonicalInteger [0x00])))"
  by (simp add: U64_def ParseHash_def view_def ParsePrefix_def BeInt_def index_def slice_expr_def
      slice_len_def slice_cap_def literal_def int64_def)

text \<open>
  Claim C10 at a three-byte string decoded into a 32-byte output buffer: the error
  is returned with \<^verbatim>\<open>nil\<close> and 0, and the output buffer keeps its bytes.
\<close>
theorem ParseHash_error_result_witness:
  "ParseHash [[0x83, 0x01, 0x02, 0x03], replicate 32 0xEE]
     \<lparr>array = Some 0, offset = 0, slen = 4, scap = 4\<rparr> 0
     \<lparr>array = Some 1, offset = 0, slen = 32, scap = 32\<rparr> =
     Return ([[0x83, 0x01, 0x02, 0x03], replicate 32 0xEE], nil, 0,
             Some (ParseHashError InvalidHashLength))"
proof -
  let ?H = "[[0x83, 0x01, 0x02, 0x03], replicate 32 (0xEE :: byte)]"
  let ?P = "\<lparr>array = Some 0, offset = 0, slen = 4, scap = 4\<rparr>"
  let ?B = "\<lparr>array = Some 1, offset = 0, slen = 32, scap = 32\<rparr>"
  obtain h' out p where r: "ParseHash ?H ?P 0 ?B =
      Return (h', out, p, Some (ParseHashError InvalidHashLength))"
    by (simp add: ParseHash_def view_def ParsePrefix_def index_def slice_len_def int64_def)
  from ParseHash_error_result [OF r] have "h' = ?H" "out = nil" "p = 0"
    by simp_all
  with r show ?thesis by simp
qed

end
